theory Spec2Isabelle
  imports Main
begin

section \<open>Recon Script: values, exceptions and the HTTP session\<close>

text \<open>
  The script under study is \<^verbatim>\<open>Python Projects/Recon Script.py\<close>. Python values that the
  script stores in dictionaries or reads from parsed JSON are values of \<open>pyval\<close>; a Python
  \<^verbatim>\<open>dict\<close> with string keys is an association list in insertion order, read with
  \<open>map_of\<close>. JSON numbers are integers here (floating point is outside the embedding).
  A Python \<^verbatim>\<open>str\<close> is a \<open>string\<close> whose characters are code points below 256.
\<close>

datatype pyval =
    PyNone
  | PyBool bool
  | PyInt int
  | PyStr string
  | PyList "pyval list"
  | PyDict "(string \<times> pyval) list"

type_synonym pydict = "(string \<times> pyval) list"

text \<open>
  Exceptions are values. Every constructor is a subclass of Python's \<^verbatim>\<open>Exception\<close>, which
  is what the script's \<^verbatim>\<open>except Exception\<close> clauses catch; the script's handlers tell
  apart \<^verbatim>\<open>aiohttp.ClientResponseError\<close> (line 98), \<^verbatim>\<open>FileNotFoundError\<close> (line 57) and
  \<^verbatim>\<open>subprocess.TimeoutExpired\<close> (line 59). Each exception carries the text \<^verbatim>\<open>str(e)\<close>;
  a \<open>ClientResponseError\<close> also carries what \<^verbatim>\<open>getattr(e, 'status', None)\<close> reads.
  \<open>OtherException\<close> stands for every other class the libraries raise
  (\<^verbatim>\<open>asyncio.TimeoutError\<close>, whose text is empty, \<^verbatim>\<open>aiohttp.ClientConnectorError\<close>,
  \<^verbatim>\<open>PermissionError\<close>, \<^verbatim>\<open>json.JSONDecodeError\<close>, ...). Signals that are not subclasses
  of \<^verbatim>\<open>Exception\<close> (\<^verbatim>\<open>KeyboardInterrupt\<close>, task cancellation) are not failures of a
  collaborator and are not modelled.
\<close>

datatype exn =
    ClientResponseError "int option" string
  | FileNotFoundError string
  | TimeoutExpired string
  | IndexError string
  | TypeError string
  | AttributeError string
  | OtherException string

fun str_exn :: "exn \<Rightarrow> string" where
  "str_exn (ClientResponseError st msg) = msg"
| "str_exn (FileNotFoundError msg) = msg"
| "str_exn (TimeoutExpired msg) = msg"
| "str_exn (IndexError msg) = msg"
| "str_exn (TypeError msg) = msg"
| "str_exn (AttributeError msg) = msg"
| "str_exn (OtherException msg) = msg"

text \<open>
  A response of the aiohttp session: \<^verbatim>\<open>resp.status\<close> and \<^verbatim>\<open>str(resp.url)\<close>. A request
  either raises or yields a response. A session answers requests; the requests of the
  script are \<^verbatim>\<open>session.head(url, allow_redirects=True, timeout=TIMEOUT)\<close> and
  \<^verbatim>\<open>session.get(url, allow_redirects=True, timeout=TIMEOUT)\<close>.
\<close>

datatype response = Response (resp_status: int) (resp_url: string)

datatype request = HEAD string | GET string

type_synonym reply = "exn + response"

type_synonym session = "request \<Rightarrow> reply"

definition USER_AGENT :: string where
  "USER_AGENT = ''ReconStarter/1.0 (+https://example.com/)''"

definition CONCURRENCY :: nat where
  "CONCURRENCY = 25"

definition TIMEOUT :: nat where
  "TIMEOUT = 15"

section \<open>check_url: one probe\<close>

text \<open>
  Lines 92-106. The body under \<^verbatim>\<open>async with semaphore\<close> is a HEAD request, whose reply
  either ends the probe (lines 97 and 99) or leads to the GET request of line 103, whose
  reply ends the probe (lines 104 and 106). \<open>after_head\<close> is what the body does with the
  reply to HEAD: \<open>Inl d\<close> returns the dictionary \<open>d\<close>, \<open>Inr e\<close> enters the handler of
  line 100 with the exception \<open>e\<close>. \<open>after_get\<close> is what that handler does with the reply
  to GET.
\<close>

definition found :: "string \<Rightarrow> response \<Rightarrow> pydict" where
  "found url resp =
     [(''url'', PyStr url), (''status'', PyInt (resp_status resp)),
      (''final_url'', PyStr (resp_url resp))]"

definition opt_int :: "int option \<Rightarrow> pyval" where
  "opt_int st = (case st of None \<Rightarrow> PyNone | Some n \<Rightarrow> PyInt n)"

fun after_head :: "string \<Rightarrow> reply \<Rightarrow> pydict + exn" where
  "after_head url (Inr resp) = Inl (found url resp)"
| "after_head url (Inl (ClientResponseError st msg)) =
     Inl [(''url'', PyStr url), (''status'', opt_int st),
          (''error'', PyStr (str_exn (ClientResponseError st msg)))]"
| "after_head url (Inl e) = Inr e"

fun after_get :: "string \<Rightarrow> reply \<Rightarrow> pydict" where
  "after_get url (Inr resp) = found url resp"
| "after_get url (Inl e2) =
     [(''url'', PyStr url), (''status'', PyNone), (''error'', PyStr (str_exn e2))]"

text \<open>
  The probe run on its own, with the semaphore free: the dictionary it returns and the
  requests it has issued, in order.
\<close>

definition check_url :: "session \<Rightarrow> string \<Rightarrow> pydict \<times> request list" where
  "check_url session url =
     (case after_head url (session (HEAD url)) of
        Inl d \<Rightarrow> (d, [HEAD url])
      | Inr e \<Rightarrow> (after_get url (session (GET url)), [HEAD url, GET url]))"

text \<open>Reading a Probe Outcome: the status code and the error description it carries.\<close>

definition status_of :: "pydict \<Rightarrow> int option" where
  "status_of d = (case map_of d ''status'' of Some (PyInt n) \<Rightarrow> Some n | _ \<Rightarrow> None)"

definition error_of :: "pydict \<Rightarrow> string option" where
  "error_of d = (case map_of d ''error'' of Some (PyStr s) \<Rightarrow> Some s | _ \<Rightarrow> None)"

definition final_url_of :: "pydict \<Rightarrow> string option" where
  "final_url_of d = (case map_of d ''final_url'' of Some (PyStr s) \<Rightarrow> Some s | _ \<Rightarrow> None)"

definition url_of :: "pydict \<Rightarrow> string option" where
  "url_of d = (case map_of d ''url'' of Some (PyStr s) \<Rightarrow> Some s | _ \<Rightarrow> None)"

section \<open>bulk_check_urls: the probes as concurrent tasks\<close>

text \<open>
  Lines 108-116. \<^verbatim>\<open>bulk_check_urls\<close> creates one semaphore with \<open>CONCURRENCY\<close> permits and
  one task per URL, in the order of the list, and awaits \<^verbatim>\<open>asyncio.gather\<close> of the tasks.
  A task suspends where \<^verbatim>\<open>check_url\<close> awaits: at \<^verbatim>\<open>async with semaphore\<close> (line 94), at
  the HEAD request (line 96) and at the GET request (line 103). Between two suspensions a
  task runs alone, so a task is in one of four phases:
  \<^item> \<open>Waiting\<close>: created, the permit not yet acquired;
  \<^item> \<open>Head\<close>: holds a permit, the HEAD request is in flight;
  \<^item> \<open>Get\<close>: holds a permit, HEAD has raised into the handler of line 100, the GET
    request is in flight;
  \<^item> \<open>Done d\<close>: has left \<^verbatim>\<open>async with\<close>, which released the permit, and returned \<open>d\<close>.

  \<^verbatim>\<open>asyncio.Semaphore\<close> keeps a counter: \<^verbatim>\<open>acquire\<close> proceeds and decrements it when it
  is positive and blocks while it is zero, \<^verbatim>\<open>release\<close> increments it. The event loop may
  resume the tasks in any order; a schedule is the list of task indices it picks.
  The network's reply may differ from task to task, so a network gives each task (by
  its index in the list) a session.
\<close>

datatype phase = Waiting | Head | Get | Done pydict

type_synonym task = "string \<times> phase"

record config =
  sem_value :: nat
  tasks :: "task list"

type_synonym network = "nat \<Rightarrow> session"

definition task_step :: "network \<Rightarrow> config \<Rightarrow> nat \<Rightarrow> config option" where
  "task_step net c i =
     (if i < length (tasks c) then
        (case tasks c ! i of
           (url, Waiting) \<Rightarrow>
             if 0 < sem_value c
             then Some (c\<lparr>sem_value := sem_value c - 1, tasks := (tasks c)[i := (url, Head)]\<rparr>)
             else None
         | (url, Head) \<Rightarrow>
             (case after_head url (net i (HEAD url)) of
                Inl d \<Rightarrow>
                  Some (c\<lparr>sem_value := sem_value c + 1, tasks := (tasks c)[i := (url, Done d)]\<rparr>)
              | Inr e \<Rightarrow> Some (c\<lparr>tasks := (tasks c)[i := (url, Get)]\<rparr>))
         | (url, Get) \<Rightarrow>
             Some (c\<lparr>sem_value := sem_value c + 1,
                     tasks := (tasks c)[i := (url, Done (after_get url (net i (GET url))))]\<rparr>)
         | (url, Done d) \<Rightarrow> None)
      else None)"

text \<open>
  Running a schedule: a pick that cannot run (no such task, a task blocked on the
  semaphore, a finished task) leaves the configuration as it is.
\<close>

fun exec :: "network \<Rightarrow> config \<Rightarrow> nat list \<Rightarrow> config" where
  "exec net c [] = c"
| "exec net c (i # sched) =
     exec net (case task_step net c i of None \<Rightarrow> c | Some c' \<Rightarrow> c') sched"

text \<open>
  \<^verbatim>\<open>asyncio.gather(*tasks)\<close> completes when every task has returned, with the tasks'
  results in the order of the tasks; until then the awaiting coroutine does not resume.
\<close>

fun gather :: "task list \<Rightarrow> pydict list option" where
  "gather [] = Some []"
| "gather ((url, Done d) # ts) = (case gather ts of None \<Rightarrow> None | Some ds \<Rightarrow> Some (d # ds))"
| "gather ((url, ph) # ts) = None"

definition bulk_init :: "nat \<Rightarrow> string list \<Rightarrow> config" where
  "bulk_init B urls = \<lparr>sem_value = B, tasks = map (\<lambda>u. (u, Waiting)) urls\<rparr>"

definition bulk_run :: "nat \<Rightarrow> network \<Rightarrow> string list \<Rightarrow> nat list \<Rightarrow> config" where
  "bulk_run B net urls sched = exec net (bulk_init B urls) sched"

text \<open>
  What \<^verbatim>\<open>bulk_check_urls\<close> has returned once the event loop has run the schedule:
  \<open>None\<close> while \<^verbatim>\<open>gather\<close> is still pending.
\<close>

definition bulk_check_urls :: "network \<Rightarrow> string list \<Rightarrow> nat list \<Rightarrow> pydict list option" where
  "bulk_check_urls net urls sched = gather (tasks (bulk_run CONCURRENCY net urls sched))"

text \<open>The tasks that hold a permit, and the steps a task still has before it returns.\<close>

fun holding :: "task \<Rightarrow> bool" where
  "holding (url, Head) = True"
| "holding (url, Get) = True"
| "holding (url, ph) = False"

definition holders :: "config \<Rightarrow> nat" where
  "holders c = length (filter holding (tasks c))"

fun steps_left :: "task \<Rightarrow> nat" where
  "steps_left (url, Waiting) = 3"
| "steps_left (url, Head) = 2"
| "steps_left (url, Get) = 1"
| "steps_left (url, Done d) = 0"

definition work :: "config \<Rightarrow> nat" where
  "work c = sum_list (map steps_left (tasks c))"

text \<open>
  The list that the probes return when each is run on its own, in the order of the URLs:
  task \<open>i\<close> talks to session \<open>net i\<close>.
\<close>

fun probes_from :: "network \<Rightarrow> nat \<Rightarrow> string list \<Rightarrow> pydict list" where
  "probes_from net i [] = []"
| "probes_from net i (u # us) = fst (check_url (net i) u) # probes_from net (Suc i) us"

definition gathered :: "network \<Rightarrow> string list \<Rightarrow> pydict list" where
  "gathered net urls = probes_from net 0 urls"


text \<open>
  What the phase of a task says about the replies it has had: a task that waits for GET
  has had HEAD raise into the handler of line 100, and a finished task has returned what
  \<open>check_url\<close> returns on its session.
\<close>

fun on_track :: "session \<Rightarrow> task \<Rightarrow> bool" where
  "on_track s (url, Waiting) = True"
| "on_track s (url, Head) = True"
| "on_track s (url, Get) =
     (case after_head url (s (HEAD url)) of Inl d \<Rightarrow> False | Inr e \<Rightarrow> True)"
| "on_track s (url, Done d) = (d = fst (check_url s url))"

definition all_on_track :: "network \<Rightarrow> config \<Rightarrow> bool" where
  "all_on_track net c = (\<forall>j < length (tasks c). on_track (net j) (tasks c ! j))"

subsection \<open>Sessions and networks used as concrete inputs\<close>

text \<open>
  \<open>session_redirect_loop\<close>: HEAD ends in \<^verbatim>\<open>aiohttp.TooManyRedirects\<close>, a subclass of
  \<^verbatim>\<open>ClientResponseError\<close>, while GET would be answered. \<open>session_head_blocked\<close>: the
  server drops HEAD and answers GET after a redirect. \<open>session_timeouts\<close>: every request
  times out; \<^verbatim>\<open>str(asyncio.TimeoutError())\<close> is the empty string. \<open>session_ok\<close>: every
  request is answered with status 200.
\<close>

definition session_redirect_loop :: session where
  "session_redirect_loop req =
     (case req of
        HEAD u \<Rightarrow> Inl (ClientResponseError (Some 0) ''0, message=too many redirects'')
      | GET u \<Rightarrow> Inr (Response 200 u))"

definition session_head_blocked :: session where
  "session_head_blocked req =
     (case req of
        HEAD u \<Rightarrow> Inl (OtherException ''Server disconnected'')
      | GET u \<Rightarrow> Inr (Response 200 (u @ ''index.html'')))"

definition session_timeouts :: session where
  "session_timeouts req = Inl (OtherException '''')"

definition session_ok :: session where
  "session_ok req = (case req of HEAD u \<Rightarrow> Inr (Response 200 u) | GET u \<Rightarrow> Inr (Response 200 u))"

definition net_mixed :: network where
  "net_mixed i =
     (if i = 0 then session_head_blocked else if i = 1 then session_timeouts else session_ok)"


section \<open>get_wayback_urls_via_cdx: the archive query\<close>

text \<open>
  Lines 62-90. \<^verbatim>\<open>requests.get\<close> either raises or yields a response with a status code;
  \<^verbatim>\<open>r.json()\<close> either raises (the body is not JSON) or yields the parsed value. The
  request is a parameter: it is given the URL and the \<^verbatim>\<open>limit\<close> parameter.
\<close>

definition CDX_API :: "string \<Rightarrow> string" where
  "CDX_API domain =
     ''http://web.archive.org/cdx/search/cdx?url='' @ domain
       @ ''/*&output=json&fl=original&collapse=urlkey''"

datatype http_response = HttpResponse (status_code: int) (body_json: "exn + pyval")

type_synonym requests_get = "string \<Rightarrow> int \<Rightarrow> exn + http_response"

text \<open>
  Python sets hold hashable values and compare them with \<^verbatim>\<open>==\<close>. Lists and dictionaries
  are not hashable (\<^verbatim>\<open>TypeError\<close>). Among the hashable values of \<open>pyval\<close>, \<^verbatim>\<open>==\<close> is
  equality except that \<^verbatim>\<open>True == 1\<close> and \<^verbatim>\<open>False == 0\<close>; \<open>hkey\<close> maps a value to the
  representative of its class, and a Python set is the HOL set of the representatives of
  its members.
\<close>

fun hashable :: "pyval \<Rightarrow> bool" where
  "hashable (PyList xs) = False"
| "hashable (PyDict kvs) = False"
| "hashable v = True"

fun hkey :: "pyval \<Rightarrow> pyval" where
  "hkey (PyBool b) = PyInt (if b then 1 else 0)"
| "hkey v = v"

text \<open>
  Iterating a value, as \<^verbatim>\<open>enumerate(data)\<close> does: the items of a list, the keys of a
  dictionary, the characters of a string; the other values are not iterable.
\<close>

fun py_iter :: "pyval \<Rightarrow> exn + pyval list" where
  "py_iter (PyList xs) = Inr xs"
| "py_iter (PyDict kvs) = Inr (map (\<lambda>kv. PyStr (fst kv)) kvs)"
| "py_iter (PyStr s) = Inr (map (\<lambda>c. PyStr [c]) s)"
| "py_iter v = Inl (TypeError ''object is not iterable'')"

text \<open>
  The loop of lines 72-80 at index \<open>i\<close>, with the list \<open>urls\<close> built so far. A first row
  that is a list containing \<^verbatim>\<open>"original"\<close> is skipped; a list row gives \<^verbatim>\<open>row[0]\<close>, which
  raises \<^verbatim>\<open>IndexError\<close> on an empty list; a string row gives itself; any other row gives
  nothing.
\<close>

fun collect_rows :: "nat \<Rightarrow> pyval list \<Rightarrow> pyval list \<Rightarrow> exn + pyval list" where
  "collect_rows i [] urls = Inr urls"
| "collect_rows i (PyList xs # rows) urls =
     (if i = 0 \<and> PyStr ''original'' \<in> set xs then collect_rows (Suc i) rows urls
      else (case xs of
              [] \<Rightarrow> Inl (IndexError ''list index out of range'')
            | x # rest \<Rightarrow> collect_rows (Suc i) rows (urls @ [x])))"
| "collect_rows i (PyStr s # rows) urls = collect_rows (Suc i) rows (urls @ [PyStr s])"
| "collect_rows i (row # rows) urls = collect_rows (Suc i) rows urls"

text \<open>The loop of lines 82-87, with the set \<open>seen\<close> and the list \<open>out\<close> built so far.\<close>

fun dedupe :: "pyval list \<Rightarrow> pyval set \<Rightarrow> pyval list \<Rightarrow> exn + pyval list" where
  "dedupe [] seen out = Inr out"
| "dedupe (u # us) seen out =
     (if \<not> hashable u then Inl (TypeError ''unhashable type'')
      else if hkey u \<notin> seen then dedupe us (insert (hkey u) seen) (out @ [u])
      else dedupe us seen out)"

text \<open>
  The body of the \<^verbatim>\<open>try\<close> of line 64, and the function: every exception raised in the
  body is caught at line 89.
\<close>

definition cdx_try :: "requests_get \<Rightarrow> string \<Rightarrow> int \<Rightarrow> exn + pyval list" where
  "cdx_try rget domain limit =
     (case rget (CDX_API domain) limit of
        Inl e \<Rightarrow> Inl e
      | Inr r \<Rightarrow>
          if status_code r \<noteq> 200 then Inr []
          else (case body_json r of
                  Inl e \<Rightarrow> Inl e
                | Inr data \<Rightarrow>
                    (case py_iter data of
                       Inl e \<Rightarrow> Inl e
                     | Inr rows \<Rightarrow>
                         (case collect_rows 0 rows [] of
                            Inl e \<Rightarrow> Inl e
                          | Inr urls \<Rightarrow> dedupe urls {} []))))"

definition get_wayback_urls_via_cdx :: "requests_get \<Rightarrow> string \<Rightarrow> int \<Rightarrow> pyval list" where
  "get_wayback_urls_via_cdx rget domain limit =
     (case cdx_try rget domain limit of Inl e \<Rightarrow> [] | Inr out \<Rightarrow> out)"

text \<open>
  The loop of lines 171-178 of \<^verbatim>\<open>main\<close>, with \<open>seen\<close> and \<open>uniq\<close> built so far: the test
  against \<^verbatim>\<open>args.max_wayback\<close> comes after each element, new or not.
\<close>

fun cap_loop :: "int \<Rightarrow> pyval list \<Rightarrow> pyval set \<Rightarrow> pyval list \<Rightarrow> exn + pyval list" where
  "cap_loop m [] seen uniq = Inr uniq"
| "cap_loop m (u # us) seen uniq =
     (if \<not> hashable u then Inl (TypeError ''unhashable type'')
      else if hkey u \<notin> seen
        then (if m \<le> int (length (uniq @ [u])) then Inr (uniq @ [u])
              else cap_loop m us (insert (hkey u) seen) (uniq @ [u]))
        else (if m \<le> int (length uniq) then Inr uniq else cap_loop m us seen uniq))"

text \<open>
  The Archive URL Source on the remote path: the query with
  \<^verbatim>\<open>limit=args.max_wayback\<close> (line 168), then the loop of lines 171-178.
\<close>

definition archive_urls :: "requests_get \<Rightarrow> string \<Rightarrow> int \<Rightarrow> exn + pyval list" where
  "archive_urls rget domain max_wayback =
     cap_loop max_wayback (get_wayback_urls_via_cdx rget domain max_wayback) {} []"


subsection \<open>Archive responses used as concrete inputs\<close>

definition example_rows :: pyval where
  "example_rows =
     PyList [PyList [PyStr ''original''], PyList [PyStr ''http://example.com/x''],
             PyList [PyStr ''http://example.com/x'']]"

definition rget_example :: requests_get where
  "rget_example url limit = Inr (HttpResponse 200 (Inr example_rows))"

definition rget_unreachable :: requests_get where
  "rget_unreachable url limit = Inl (OtherException ''Connection refused'')"

definition rget_503 :: requests_get where
  "rget_503 url limit = Inr (HttpResponse 503 (Inr example_rows))"

definition rget_not_json :: requests_get where
  "rget_not_json url limit =
     Inr (HttpResponse 200 (Inl (OtherException ''Expecting value: line 1 column 1 (char 0)'')))"

definition rget_number :: requests_get where
  "rget_number url limit = Inr (HttpResponse 200 (Inr (PyInt 7)))"

definition rget_empty_row :: requests_get where
  "rget_empty_row url limit = Inr (HttpResponse 200 (Inr (PyList [PyList []])))"

definition rget_nested :: requests_get where
  "rget_nested url limit =
     Inr (HttpResponse 200 (Inr (PyList [PyList [PyList [PyStr ''http://example.com/x'']]])))"

definition rget_no_urls :: requests_get where
  "rget_no_urls url limit = Inr (HttpResponse 200 (Inr (PyList [])))"






section \<open>The sequential collaborators\<close>










text \<open>
  Lines 49-60. \<^verbatim>\<open>subprocess.run(cmd, capture_output=True, text=True, timeout=timeout)\<close>
  either raises or yields a completed process. Two exception classes are handled; any
  other exception leaves the function.
\<close>

datatype completed_process =
  CompletedProcess (proc_returncode: int) (proc_stdout: string) (proc_stderr: string)





text \<open>
  Lines 122-134. The request either raises or yields a page with a status code;
  parsing the page and reading the \<^verbatim>\<open>href\<close> of every anchor either raises or yields the
  list of these texts.
\<close>

datatype page = Page (page_status: int) (page_hrefs: "exn + string list")



section \<open>main\<close>















subsection \<open>Worlds used as concrete inputs\<close>










section \<open>Properties of one probe\<close>

lemma url_of_check_url: "url_of (fst (check_url s u)) = Some u"
proof (cases "s (HEAD u)")
  case (Inr resp)
  then show ?thesis by (simp add: check_url_def url_of_def found_def)
next
  case (Inl e)
  show ?thesis
  proof (cases "s (GET u)")
    case g: (Inl e2)
    with Inl show ?thesis by (cases e) (simp_all add: check_url_def url_of_def found_def)
  next
    case g: (Inr resp)
    with Inl show ?thesis by (cases e) (simp_all add: check_url_def url_of_def found_def)
  qed
qed

text \<open>
  Claim C1, as amended. When the HEAD request raises an exception that is not an
  \<^verbatim>\<open>aiohttp.ClientResponseError\<close>, the probe issues a GET request to the same URL after
  it, and if GET is answered the outcome is the one of an answered request: the status code
  and final URL of the GET response, and no error. When HEAD raises a
  \<open>ClientResponseError\<close> (line 98), no GET request is issued: the outcome carries the
  exception's status attribute and its text as the error, and no final URL.
\<close>

theorem check_url_fallback:
  assumes "session (HEAD url) = Inl e"
  shows "((\<forall>st msg. e \<noteq> ClientResponseError st msg) \<longrightarrow>
           snd (check_url session url) = [HEAD url, GET url]
           \<and> (\<forall>resp. session (GET url) = Inr resp \<longrightarrow>
                 fst (check_url session url) = found url resp
                 \<and> status_of (fst (check_url session url)) = Some (resp_status resp)
                 \<and> final_url_of (fst (check_url session url)) = Some (resp_url resp)
                 \<and> error_of (fst (check_url session url)) = None))
    \<and> (\<forall>st msg. e = ClientResponseError st msg \<longrightarrow>
           snd (check_url session url) = [HEAD url]
           \<and> status_of (fst (check_url session url)) = st
           \<and> error_of (fst (check_url session url)) = Some msg
           \<and> final_url_of (fst (check_url session url)) = None)"
  using assms
  by (cases e; auto simp: check_url_def status_of_def final_url_of_def error_of_def found_def
      opt_int_def split: option.splits)

theorem check_url_fallback_witness:
  "session_head_blocked (HEAD ''http://a/'') = Inl (OtherException ''Server disconnected'')
   \<and> session_head_blocked (GET ''http://a/'') = Inr (Response 200 ''http://a/index.html'')
   \<and> snd (check_url session_head_blocked ''http://a/'') = [HEAD ''http://a/'', GET ''http://a/'']
   \<and> status_of (fst (check_url session_head_blocked ''http://a/'')) = Some 200
   \<and> final_url_of (fst (check_url session_head_blocked ''http://a/'')) = Some ''http://a/index.html''
   \<and> error_of (fst (check_url session_head_blocked ''http://a/'')) = None
   \<and> session_redirect_loop (HEAD ''http://a/'') = Inl (ClientResponseError (Some 0) ''0, message=too many redirects'')
   \<and> snd (check_url session_redirect_loop ''http://a/'') = [HEAD ''http://a/'']
   \<and> error_of (fst (check_url session_redirect_loop ''http://a/'')) = Some ''0, message=too many redirects''"
proof -
  have h: "session_head_blocked (HEAD ''http://a/'') = Inl (OtherException ''Server disconnected'')"
    and g: "session_head_blocked (GET ''http://a/'') = Inr (Response 200 ''http://a/index.html'')"
    by (simp_all add: session_head_blocked_def)
  have r: "session_redirect_loop (HEAD ''http://a/'')
      = Inl (ClientResponseError (Some 0) ''0, message=too many redirects'')"
    by (simp add: session_redirect_loop_def)
  from check_url_fallback [of session_head_blocked "''http://a/''", OF h] g
    check_url_fallback [of session_redirect_loop "''http://a/''", OF r] h r
  show ?thesis by (simp add: status_of_def final_url_of_def error_of_def found_def)
qed

text \<open>
  The claim as the specification states it (a GET fallback after every failure of HEAD)
  fails where HEAD raises a \<open>ClientResponseError\<close>: the only request issued is HEAD and
  the outcome is an error, although GET would have been answered with status 200.
\<close>

theorem check_url_head_response_error_counterexample:
  "session_redirect_loop (HEAD ''http://a/'') = Inl (ClientResponseError (Some 0) ''0, message=too many redirects'')
   \<and> session_redirect_loop (GET ''http://a/'') = Inr (Response 200 ''http://a/'')
   \<and> check_url session_redirect_loop ''http://a/'' =
       ([(''url'', PyStr ''http://a/''), (''status'', PyInt 0),
         (''error'', PyStr ''0, message=too many redirects'')],
        [HEAD ''http://a/''])"
  by (simp add: session_redirect_loop_def check_url_def opt_int_def)

text \<open>
  Claim C4. Every outcome of a probe carries a status code or an error description, and
  an outcome without a status code carries an error description.
\<close>

theorem check_url_status_or_error:
  "((\<exists>n. status_of (fst (check_url session url)) = Some n)
      \<or> (\<exists>s. error_of (fst (check_url session url)) = Some s))
   \<and> (status_of (fst (check_url session url)) = None
        \<longrightarrow> (\<exists>s. error_of (fst (check_url session url)) = Some s))"
proof (cases "session (HEAD url)")
  case (Inr resp)
  then show ?thesis by (simp add: check_url_def status_of_def found_def)
next
  case (Inl e)
  show ?thesis
  proof (cases "session (GET url)")
    case g: (Inl e2)
    with Inl show ?thesis
      by (cases e) (simp_all add: check_url_def status_of_def error_of_def)
  next
    case g: (Inr resp)
    with Inl show ?thesis
      by (cases e) (simp_all add: check_url_def status_of_def error_of_def found_def)
  qed
qed

theorem check_url_status_or_error_witness:
  "status_of (fst (check_url session_timeouts ''http://a/'')) = None
   \<and> error_of (fst (check_url session_timeouts ''http://a/'')) = Some ''''"
proof -
  have "status_of (fst (check_url session_timeouts ''http://a/'')) = None"
    by (simp add: check_url_def session_timeouts_def status_of_def)
  with check_url_status_or_error [of session_timeouts "''http://a/''"]
  show ?thesis by (simp add: check_url_def session_timeouts_def error_of_def)
qed

text \<open>
  Claim C5, as amended. When HEAD raises into the fallback and GET raises too, the outcome
  has \<^verbatim>\<open>None\<close> as its status, no final URL, and as error description the text
  \<^verbatim>\<open>str(e2)\<close> of the exception that GET raised.
\<close>

theorem check_url_both_fail:
  assumes "session (HEAD url) = Inl e" "\<forall>st msg. e \<noteq> ClientResponseError st msg"
    and "session (GET url) = Inl e2"
  shows "fst (check_url session url)
           = [(''url'', PyStr url), (''status'', PyNone), (''error'', PyStr (str_exn e2))]
       \<and> map_of (fst (check_url session url)) ''status'' = Some PyNone
       \<and> status_of (fst (check_url session url)) = None
       \<and> final_url_of (fst (check_url session url)) = None
       \<and> error_of (fst (check_url session url)) = Some (str_exn e2)"
  using assms
  by (cases e) (simp_all add: check_url_def status_of_def error_of_def final_url_of_def)

theorem check_url_both_fail_witness:
  "session_timeouts (HEAD ''http://a/'') = Inl (OtherException '''')
   \<and> session_timeouts (GET ''http://a/'') = Inl (OtherException '''')
   \<and> status_of (fst (check_url session_timeouts ''http://a/'')) = None
   \<and> error_of (fst (check_url session_timeouts ''http://a/'')) = Some ''''"
proof -
  have h: "session_timeouts (HEAD ''http://a/'') = Inl (OtherException '''')"
    and g: "session_timeouts (GET ''http://a/'') = Inl (OtherException '''')"
    by (simp_all add: session_timeouts_def)
  have n: "\<forall>st msg. OtherException '''' \<noteq> ClientResponseError st msg" by simp
  from check_url_both_fail [of session_timeouts "''http://a/''", OF h n g] h g
  show ?thesis by (simp add: status_of_def error_of_def)
qed

text \<open>
  The error description need not be non-empty: when both requests time out, the text of
  \<^verbatim>\<open>asyncio.TimeoutError\<close> is the empty string, and so is the recorded error.
\<close>

theorem check_url_empty_error_counterexample:
  "session_timeouts (HEAD ''http://a/'') = Inl (OtherException '''')
   \<and> session_timeouts (GET ''http://a/'') = Inl (OtherException '''')
   \<and> check_url session_timeouts ''http://a/'' =
       ([(''url'', PyStr ''http://a/''), (''status'', PyNone), (''error'', PyStr '''')],
        [HEAD ''http://a/'', GET ''http://a/''])"
  by (simp add: session_timeouts_def check_url_def)

section \<open>Properties of the concurrent probes\<close>

subsection \<open>One step of a task\<close>

lemma filter_update_count:
  "i < length xs \<Longrightarrow>
   length (filter P (xs[i := y])) + (if P (xs ! i) then 1 else 0)
   = length (filter P xs) + (if P y then 1 else 0)"
proof (induction xs arbitrary: i)
  case Nil
  then show ?case by simp
next
  case (Cons x xs)
  show ?case
  proof (cases i)
    case 0
    then show ?thesis by simp
  next
    case (Suc j)
    with Cons.prems have "j < length xs" by simp
    from Cons.IH [OF this] Suc show ?thesis by simp
  qed
qed

lemma sum_update_steps:
  "i < length xs \<Longrightarrow>
   sum_list (map f (xs[i := y])) + f (xs ! i) = sum_list (map f xs) + (f y :: nat)"
proof (induction xs arbitrary: i)
  case Nil
  then show ?case by simp
next
  case (Cons x xs)
  show ?case
  proof (cases i)
    case 0
    then show ?thesis by simp
  next
    case (Suc j)
    with Cons.prems have "j < length xs" by simp
    from Cons.IH [OF this] Suc show ?thesis by simp
  qed
qed

lemma task_step_cases:
  assumes "task_step net c i = Some c'"
  obtains
    (acquire) url where "i < length (tasks c)" "tasks c ! i = (url, Waiting)" "0 < sem_value c"
      "sem_value c' = sem_value c - 1" "tasks c' = (tasks c)[i := (url, Head)]"
  | (head_done) url d where "i < length (tasks c)" "tasks c ! i = (url, Head)"
      "after_head url (net i (HEAD url)) = Inl d"
      "sem_value c' = sem_value c + 1" "tasks c' = (tasks c)[i := (url, Done d)]"
  | (head_raised) url e where "i < length (tasks c)" "tasks c ! i = (url, Head)"
      "after_head url (net i (HEAD url)) = Inr e"
      "sem_value c' = sem_value c" "tasks c' = (tasks c)[i := (url, Get)]"
  | (get_done) url where "i < length (tasks c)" "tasks c ! i = (url, Get)"
      "sem_value c' = sem_value c + 1"
      "tasks c' = (tasks c)[i := (url, Done (after_get url (net i (GET url))))]"
proof -
  from assms have len: "i < length (tasks c)"
    by (simp add: task_step_def split: if_splits)
  obtain url ph where t: "tasks c ! i = (url, ph)" by (cases "tasks c ! i")
  show thesis
  proof (cases ph)
    case Waiting
    with assms len t show ?thesis
      by (intro acquire [of url]) (auto simp: task_step_def split: if_splits)
  next
    case Head
    show ?thesis
    proof (cases "after_head url (net i (HEAD url))")
      case (Inl d)
      with assms len t Head show ?thesis
        by (intro head_done [of url d]) (auto simp: task_step_def)
    next
      case (Inr e)
      with assms len t Head show ?thesis
        by (intro head_raised [of url e]) (auto simp: task_step_def)
    qed
  next
    case Get
    with assms len t show ?thesis
      by (intro get_done [of url]) (auto simp: task_step_def)
  next
    case (Done d)
    with assms len t show ?thesis by (simp add: task_step_def)
  qed
qed

lemma task_step_permits:
  assumes "task_step net c i = Some c'"
  shows "sem_value c' + holders c' = sem_value c + holders c"
  using assms
proof (cases rule: task_step_cases)
  case (acquire url)
  with filter_update_count [of i "tasks c" holding "(url, Head)"] show ?thesis
    by (simp add: holders_def)
next
  case (head_done url d)
  with filter_update_count [of i "tasks c" holding "(url, Done d)"] show ?thesis
    by (simp add: holders_def)
next
  case (head_raised url e)
  with filter_update_count [of i "tasks c" holding "(url, Get)"] show ?thesis
    by (simp add: holders_def)
next
  case (get_done url)
  with filter_update_count
    [of i "tasks c" holding "(url, Done (after_get url (net i (GET url))))"]
  show ?thesis
    by (simp add: holders_def)
qed

lemma task_step_work:
  assumes "task_step net c i = Some c'"
  shows "work c' < work c"
  using assms
proof (cases rule: task_step_cases)
  case (acquire url)
  with sum_update_steps [of i "tasks c" steps_left "(url, Head)"] show ?thesis
    by (simp add: work_def)
next
  case (head_done url d)
  with sum_update_steps [of i "tasks c" steps_left "(url, Done d)"] show ?thesis
    by (simp add: work_def)
next
  case (head_raised url e)
  with sum_update_steps [of i "tasks c" steps_left "(url, Get)"] show ?thesis
    by (simp add: work_def)
next
  case (get_done url)
  with sum_update_steps
    [of i "tasks c" steps_left "(url, Done (after_get url (net i (GET url))))"]
  show ?thesis
    by (simp add: work_def)
qed

lemma task_step_urls:
  assumes "task_step net c i = Some c'"
  shows "map fst (tasks c') = map fst (tasks c)"
  using assms
proof (cases rule: task_step_cases)
  case (acquire url)
  then show ?thesis by (simp add: map_update list_update_same_conv)
next
  case (head_done url d)
  then show ?thesis by (simp add: map_update list_update_same_conv)
next
  case (head_raised url e)
  then show ?thesis by (simp add: map_update list_update_same_conv)
next
  case (get_done url)
  then show ?thesis by (simp add: map_update list_update_same_conv)
qed

lemma task_step_on_track:
  assumes ok: "all_on_track net c" and st: "task_step net c i = Some c'"
  shows "all_on_track net c'"
  using st
proof (cases rule: task_step_cases)
  case (acquire url)
  with ok show ?thesis by (auto simp: all_on_track_def nth_list_update)
next
  case (head_done url d)
  with ok show ?thesis by (auto simp: all_on_track_def nth_list_update check_url_def)
next
  case (head_raised url e)
  with ok show ?thesis by (auto simp: all_on_track_def nth_list_update)
next
  case (get_done url)
  from get_done(1,2) ok have "on_track (net i) (url, Get)"
    by (auto simp: all_on_track_def)
  then obtain e where "after_head url (net i (HEAD url)) = Inr e"
    by (auto split: sum.splits)
  with get_done ok show ?thesis
    by (auto simp: all_on_track_def nth_list_update check_url_def)
qed

lemma task_step_release:
  assumes "task_step net c i = Some c'" "snd (tasks c' ! i) = Done d"
  shows "holding (tasks c ! i) \<and> sem_value c' = sem_value c + 1"
  using assms(1)
proof (cases rule: task_step_cases)
  case (acquire url)
  with assms(2) show ?thesis by simp
next
  case (head_done url d)
  then show ?thesis by simp
next
  case (head_raised url e)
  with assms(2) show ?thesis by simp
next
  case (get_done url)
  then show ?thesis by simp
qed

subsection \<open>Invariants of a run\<close>

lemma exec_append: "exec net c (s1 @ s2) = exec net (exec net c s1) s2"
  by (induction s1 arbitrary: c) simp_all

lemma exec_invariant:
  assumes step: "\<And>c c' i. P c \<Longrightarrow> task_step net c i = Some c' \<Longrightarrow> P c'"
    and init: "P c"
  shows "P (exec net c sched)"
  using init
proof (induction sched arbitrary: c)
  case Nil
  then show ?case by simp
next
  case (Cons i sched)
  show ?case
  proof (cases "task_step net c i")
    case None
    with Cons show ?thesis by simp
  next
    case (Some c')
    from step [OF Cons.prems Some] have "P c'" .
    with Cons.IH Some show ?thesis by simp
  qed
qed

lemma holders_bulk_init: "holders (bulk_init B urls) = 0"
  by (simp add: holders_def bulk_init_def filter_map comp_def)

lemma exec_permits: "sem_value (exec net c sched) + holders (exec net c sched) = sem_value c + holders c"
  by (rule exec_invariant [where P = "\<lambda>x. sem_value x + holders x = sem_value c + holders c"])
     (simp_all add: task_step_permits)

lemma exec_urls: "map fst (tasks (exec net c sched)) = map fst (tasks c)"
  by (rule exec_invariant [where P = "\<lambda>x. map fst (tasks x) = map fst (tasks c)"])
     (simp_all add: task_step_urls)

lemma exec_work: "work (exec net c sched) \<le> work c"
proof (rule exec_invariant [where P = "\<lambda>x. work x \<le> work c"])
  fix x x' i assume "work x \<le> work c" "task_step net x i = Some x'"
  with task_step_work [of net x i x'] show "work x' \<le> work c" by simp
qed simp

lemma bulk_run_permits: "sem_value (bulk_run B net urls sched) + holders (bulk_run B net urls sched) = B"
  using exec_permits [of net "bulk_init B urls" sched]
  by (simp add: bulk_run_def holders_bulk_init) (simp add: bulk_init_def)

lemma bulk_run_urls: "map fst (tasks (bulk_run B net urls sched)) = urls"
  using exec_urls [of net "bulk_init B urls" sched]
  by (simp add: bulk_run_def) (simp add: bulk_init_def comp_def)

lemma bulk_run_on_track: "all_on_track net (bulk_run B net urls sched)"
  unfolding bulk_run_def
proof (rule exec_invariant [where P = "all_on_track net"])
  show "all_on_track net (bulk_init B urls)"
    by (simp add: all_on_track_def bulk_init_def)
qed (rule task_step_on_track)

subsection \<open>What gather returns\<close>

lemma gather_SomeD:
  "gather ts = Some r \<Longrightarrow>
   length r = length ts \<and> (\<forall>j < length ts. ts ! j = (fst (ts ! j), Done (r ! j)))"
proof (induction ts arbitrary: r rule: gather.induct)
  case 1
  then show ?case by simp
next
  case (2 url d ts)
  then obtain ds where ds: "gather ts = Some ds" and r: "r = d # ds"
    by (auto split: option.splits)
  from "2.IH" [OF ds] r show ?case
    by (auto simp: nth_Cons split: nat.splits)
qed simp_all

lemma gather_NoneD:
  "gather ts = None \<Longrightarrow> \<exists>j < length ts. \<forall>d. snd (ts ! j) \<noteq> Done d"
proof (induction ts)
  case Nil
  then show ?case by simp
next
  case (Cons t ts)
  obtain url ph where t: "t = (url, ph)" by (cases t)
  show ?case
  proof (cases "\<exists>d. ph = Done d")
    case True
    then obtain d where "ph = Done d" ..
    with Cons.prems t have "gather ts = None" by (auto split: option.splits)
    from Cons.IH [OF this] obtain j where "j < length ts" "\<forall>d. snd (ts ! j) \<noteq> Done d"
      by blast
    then have "Suc j < length (t # ts)" "\<forall>d'. snd ((t # ts) ! Suc j) \<noteq> Done d'"
      by simp_all
    then show ?thesis by blast
  next
    case False
    with t have "0 < length (t # ts)" "\<forall>d. snd ((t # ts) ! 0) \<noteq> Done d" by simp_all
    then show ?thesis by blast
  qed
qed

lemma gather_all_done:
  "gather ts = Some r \<Longrightarrow> \<forall>t \<in> set ts. \<exists>d. snd t = Done d"
  by (induction ts arbitrary: r rule: gather.induct) (auto split: option.splits)

lemma holders_done:
  assumes "gather (tasks c) = Some r"
  shows "holders c = 0"
proof -
  from gather_all_done [OF assms] have "\<forall>t \<in> set (tasks c). \<not> holding t"
    by fastforce
  then show ?thesis by (simp add: holders_def filter_empty_conv)
qed

lemma probes_from_length: "length (probes_from net i us) = length us"
  by (induction us arbitrary: i) simp_all

lemma probes_from_nth:
  "j < length us \<Longrightarrow> probes_from net i us ! j = fst (check_url (net (i + j)) (us ! j))"
proof (induction us arbitrary: i j)
  case Nil
  then show ?case by simp
next
  case (Cons u us)
  then show ?case by (cases j) simp_all
qed

lemma map_url_of_probes_from: "map url_of (probes_from net i urls) = map Some urls"
  by (induction urls arbitrary: i) (simp_all add: url_of_check_url)

lemma bulk_run_gathered:
  assumes "gather (tasks (bulk_run B net urls sched)) = Some r"
  shows "r = gathered net urls"
proof -
  let ?ts = "tasks (bulk_run B net urls sched)"
  from gather_SomeD [OF assms]
  have len: "length r = length ?ts"
    and fin: "\<And>j. j < length ?ts \<Longrightarrow> ?ts ! j = (fst (?ts ! j), Done (r ! j))" by auto
  have urls: "map fst ?ts = urls" by (rule bulk_run_urls)
  then have len': "length ?ts = length urls" by (metis length_map)
  show ?thesis
  proof (rule nth_equalityI)
    from len len' show "length r = length (gathered net urls)"
      by (simp add: gathered_def probes_from_length)
  next
    fix j assume "j < length r"
    with len len' have j: "j < length ?ts" "j < length urls" by simp_all
    from urls j have fstj: "fst (?ts ! j) = urls ! j" by (metis nth_map)
    from bulk_run_on_track [of net B urls sched] j(1)
    have "on_track (net j) (?ts ! j)" by (simp add: all_on_track_def)
    with fin [OF j(1)] fstj have "r ! j = fst (check_url (net j) (urls ! j))"
      by (metis on_track.simps(4))
    with j(2) show "r ! j = gathered net urls ! j"
      by (simp add: gathered_def probes_from_nth)
  qed
qed

lemma gathered_urls_in: "d \<in> set (gathered net urls) \<Longrightarrow> \<exists>u \<in> set urls. url_of d = Some u"
proof -
  assume "d \<in> set (gathered net urls)"
  then have "url_of d \<in> set (map url_of (gathered net urls))" by simp
  then have "url_of d \<in> set (map Some urls)" by (simp add: gathered_def map_url_of_probes_from)
  then show ?thesis by auto
qed

lemma count_in_distinct:
  "distinct xs \<Longrightarrow> x \<in> set xs \<Longrightarrow> length (filter (\<lambda>y. y = x) xs) = 1"
proof (induction xs)
  case Nil
  then show ?case by simp
next
  case (Cons a xs)
  show ?case
  proof (cases "a = x")
    case True
    with Cons.prems have "x \<notin> set xs" by simp
    then have "filter (\<lambda>y. y = x) xs = []" by (auto simp: filter_empty_conv)
    with True show ?thesis by simp
  next
    case False
    with Cons show ?thesis by simp
  qed
qed

lemma count_url_gathered:
  assumes "distinct urls" "u \<in> set urls"
  shows "length (filter (\<lambda>d. url_of d = Some u) (gathered net urls)) = 1"
proof -
  have "length (filter (\<lambda>d. url_of d = Some u) (gathered net urls))
      = length (filter (\<lambda>y. y = Some u) (map url_of (gathered net urls)))"
    by (simp add: filter_map comp_def)
  also have "\<dots> = length (filter (\<lambda>y. y = Some u) (map Some urls))"
    by (simp add: gathered_def map_url_of_probes_from)
  also have "\<dots> = 1"
    using assms by (intro count_in_distinct) (auto simp: distinct_map)
  finally show ?thesis .
qed

subsection \<open>Every run can be completed\<close>

lemma task_step_enabled:
  assumes perm: "0 < sem_value c + holders c" and pending: "gather (tasks c) = None"
  shows "\<exists>i c'. task_step net c i = Some c'"
proof (cases "\<exists>j < length (tasks c). holding (tasks c ! j)")
  case True
  then obtain j where j: "j < length (tasks c)" and h: "holding (tasks c ! j)" by blast
  obtain url ph where t: "tasks c ! j = (url, ph)" by (cases "tasks c ! j")
  from h t have "ph = Head \<or> ph = Get" by (cases ph) simp_all
  then show ?thesis
  proof
    assume "ph = Head"
    with j t have "\<exists>c'. task_step net c j = Some c'"
      by (cases "after_head url (net j (HEAD url))") (simp_all add: task_step_def)
    then show ?thesis by blast
  next
    assume "ph = Get"
    with j t have "\<exists>c'. task_step net c j = Some c'" by (simp add: task_step_def)
    then show ?thesis by blast
  qed
next
  case False
  then have "\<forall>t \<in> set (tasks c). \<not> holding t"
    by (metis in_set_conv_nth)
  then have "filter holding (tasks c) = []"
    by (simp add: filter_empty_conv)
  then have "holders c = 0" by (simp add: holders_def)
  with perm have sem: "0 < sem_value c" by simp
  from gather_NoneD [OF pending] obtain j where j: "j < length (tasks c)"
    and nd: "\<forall>d. snd (tasks c ! j) \<noteq> Done d" by blast
  obtain url ph where t: "tasks c ! j = (url, ph)" by (cases "tasks c ! j")
  from False j t have "\<not> holding (url, ph)" by auto
  with nd t have "ph = Waiting" by (cases ph) simp_all
  with j t sem have "\<exists>c'. task_step net c j = Some c'" by (simp add: task_step_def)
  then show ?thesis by blast
qed

lemma exec_completes:
  assumes "0 < sem_value c + holders c"
  shows "\<exists>sched. gather (tasks (exec net c sched)) \<noteq> None \<and> length sched \<le> work c"
  using assms
proof (induction "work c" arbitrary: c rule: less_induct)
  case less
  show ?case
  proof (cases "gather (tasks c)")
    case (Some r)
    then have "gather (tasks (exec net c [])) \<noteq> None \<and> length ([]::nat list) \<le> work c" by simp
    then show ?thesis by blast
  next
    case None
    from task_step_enabled [OF less.prems None]
    obtain i c' where st: "task_step net c i = Some c'" by blast
    from task_step_work [OF st] have w: "work c' < work c" .
    from task_step_permits [OF st] less.prems have "0 < sem_value c' + holders c'" by simp
    from less.hyps [OF w this] obtain sched where
      "gather (tasks (exec net c' sched)) \<noteq> None" "length sched \<le> work c'" by blast
    with st w have "gather (tasks (exec net c (i # sched))) \<noteq> None \<and> length (i # sched) \<le> work c"
      by simp
    then show ?thesis by blast
  qed
qed

lemma work_bulk_init: "work (bulk_init B urls) = 3 * length urls"
  by (induction urls) (simp_all add: work_def bulk_init_def)

lemma bulk_run_completes:
  assumes "1 \<le> B"
  shows "\<exists>more. gather (tasks (bulk_run B net urls (sched @ more))) \<noteq> None
           \<and> length more \<le> 3 * length urls"
proof -
  let ?c = "bulk_run B net urls sched"
  from bulk_run_permits [of B net urls sched] assms have "0 < sem_value ?c + holders ?c" by simp
  from exec_completes [OF this, of net] obtain more where
    m: "gather (tasks (exec net ?c more)) \<noteq> None" "length more \<le> work ?c" by blast
  have "work ?c \<le> 3 * length urls"
    using exec_work [of net "bulk_init B urls" sched] by (simp add: bulk_run_def work_bulk_init)
  with m have "gather (tasks (bulk_run B net urls (sched @ more))) \<noteq> None
      \<and> length more \<le> 3 * length urls"
    by (simp add: bulk_run_def exec_append)
  then show ?thesis by blast
qed

subsection \<open>Two runs on concrete inputs\<close>

lemma run_mixed:
  "bulk_run 1 net_mixed [''http://a/'', ''http://b/''] [1, 0, 1, 1, 0, 0, 0] =
     \<lparr>sem_value = 1,
      tasks = [(''http://a/'', Done (found ''http://a/'' (Response 200 ''http://a/index.html''))),
               (''http://b/'', Done [(''url'', PyStr ''http://b/''), (''status'', PyNone),
                                      (''error'', PyStr '''')])]\<rparr>"
  by (simp add: bulk_run_def bulk_init_def task_step_def net_mixed_def session_head_blocked_def
      session_timeouts_def)

lemma run_mixed_prefix:
  "bulk_run 1 net_mixed [''http://a/'', ''http://b/''] [1, 0, 1] =
     \<lparr>sem_value = 0, tasks = [(''http://a/'', Waiting), (''http://b/'', Get)]\<rparr>"
  by (simp add: bulk_run_def bulk_init_def task_step_def net_mixed_def session_timeouts_def)

lemma check_mixed:
  "bulk_check_urls net_mixed [''http://a/'', ''http://b/''] [1, 0, 1, 1, 0, 0] =
     Some [found ''http://a/'' (Response 200 ''http://a/index.html''),
           [(''url'', PyStr ''http://b/''), (''status'', PyNone), (''error'', PyStr '''')]]"
  by (simp add: bulk_check_urls_def CONCURRENCY_def bulk_run_def bulk_init_def task_step_def
      net_mixed_def session_head_blocked_def session_timeouts_def)

text \<open>
  Claim C2. With a budget \<open>B \<ge> 1\<close>, whatever the event loop has scheduled so far, the
  run can be continued until \<^verbatim>\<open>gather\<close> returns, within three more steps per URL (no
  task stays blocked, and every step brings a task nearer to its return). When
  \<^verbatim>\<open>gather\<close> returns, it returns as many outcomes as there are input URLs, the URL of
  every outcome is an input URL, every input URL of a duplicate-free input is the URL of
  exactly one outcome, and every task has returned. The script runs with
  \<open>B = CONCURRENCY\<close>, which is 25.
\<close>

theorem bulk_check_urls_one_outcome_per_url:
  assumes "1 \<le> B"
  shows "(\<exists>more. gather (tasks (bulk_run B net urls (sched @ more))) \<noteq> None
            \<and> length more \<le> 3 * length urls)
       \<and> (\<forall>r. gather (tasks (bulk_run B net urls sched)) = Some r \<longrightarrow>
             length r = length urls
             \<and> (\<forall>d \<in> set r. \<exists>u \<in> set urls. url_of d = Some u)
             \<and> (distinct urls \<longrightarrow>
                  (\<forall>u \<in> set urls. length (filter (\<lambda>d. url_of d = Some u) r) = 1))
             \<and> (\<forall>t \<in> set (tasks (bulk_run B net urls sched)). \<exists>d. snd t = Done d))"
proof (intro conjI allI impI)
  show "\<exists>more. gather (tasks (bulk_run B net urls (sched @ more))) \<noteq> None
            \<and> length more \<le> 3 * length urls"
    using assms by (rule bulk_run_completes)
next
  fix r assume r: "gather (tasks (bulk_run B net urls sched)) = Some r"
  then have eq: "r = gathered net urls" by (rule bulk_run_gathered)
  then show "length r = length urls" by (simp add: gathered_def probes_from_length)
  from eq show "\<forall>d \<in> set r. \<exists>u \<in> set urls. url_of d = Some u"
    by (auto dest: gathered_urls_in)
  from r show "\<forall>t \<in> set (tasks (bulk_run B net urls sched)). \<exists>d. snd t = Done d"
    by (rule gather_all_done)
  assume "distinct urls"
  with eq show "\<forall>u \<in> set urls. length (filter (\<lambda>d. url_of d = Some u) r) = 1"
    by (simp add: count_url_gathered)
qed

theorem bulk_check_urls_one_outcome_per_url_witness:
  "(1::nat) \<le> 1
   \<and> gather (tasks (bulk_run 1 net_mixed [''http://a/'', ''http://b/''] [1, 0, 1, 1, 0, 0, 0]))
       = Some [found ''http://a/'' (Response 200 ''http://a/index.html''),
               [(''url'', PyStr ''http://b/''), (''status'', PyNone), (''error'', PyStr '''')]]
   \<and> distinct [''http://a/'', ''http://b/'']
   \<and> length (filter (\<lambda>d. url_of d = Some ''http://b/'')
         [found ''http://a/'' (Response 200 ''http://a/index.html''),
          [(''url'', PyStr ''http://b/''), (''status'', PyNone), (''error'', PyStr '''')]]) = 1
   \<and> (\<exists>more. gather (tasks (bulk_run 1 net_mixed [''http://a/'', ''http://b/''] ([1, 0] @ more)))
         \<noteq> None \<and> length more \<le> 6)"
proof -
  have b: "(1::nat) \<le> 1" by simp
  have g: "gather (tasks (bulk_run 1 net_mixed [''http://a/'', ''http://b/''] [1, 0, 1, 1, 0, 0, 0]))
       = Some [found ''http://a/'' (Response 200 ''http://a/index.html''),
               [(''url'', PyStr ''http://b/''), (''status'', PyNone), (''error'', PyStr '''')]]"
    using run_mixed by simp
  have d: "distinct [''http://a/'', ''http://b/'']" by simp
  from bulk_check_urls_one_outcome_per_url
    [of 1 net_mixed "[''http://a/'', ''http://b/'']" "[1, 0, 1, 1, 0, 0, 0]", OF b] g d
  have c: "length (filter (\<lambda>d. url_of d = Some ''http://b/'')
         [found ''http://a/'' (Response 200 ''http://a/index.html''),
          [(''url'', PyStr ''http://b/''), (''status'', PyNone), (''error'', PyStr '''')]]) = 1"
    by simp
  from bulk_check_urls_one_outcome_per_url
    [of 1 net_mixed "[''http://a/'', ''http://b/'']" "[1, 0]", OF b]
  have m: "\<exists>more. gather (tasks (bulk_run 1 net_mixed [''http://a/'', ''http://b/''] ([1, 0] @ more)))
         \<noteq> None \<and> length more \<le> 6" by simp
  from b g d c m show ?thesis by blast
qed

text \<open>
  Claim C3. At every point of a run with budget \<open>B\<close>, at most \<open>B\<close> tasks hold a permit:
  the semaphore's counter and the tasks between acquire and return add up to \<open>B\<close>. Every
  step by which a task returns (HEAD answered, HEAD raising a \<open>ClientResponseError\<close>,
  GET answered, GET raising) is made by a task that holds a permit and gives it back, and
  when \<^verbatim>\<open>gather\<close> returns all \<open>B\<close> permits are back.
\<close>

theorem semaphore_bounds_probes:
  "holders (bulk_run B net urls sched) \<le> B
   \<and> sem_value (bulk_run B net urls sched) + holders (bulk_run B net urls sched) = B
   \<and> (\<forall>i c' d. task_step net (bulk_run B net urls sched) i = Some c'
          \<and> snd (tasks c' ! i) = Done d \<longrightarrow>
        holding (tasks (bulk_run B net urls sched) ! i)
        \<and> sem_value c' = sem_value (bulk_run B net urls sched) + 1)
   \<and> (gather (tasks (bulk_run B net urls sched)) \<noteq> None \<longrightarrow>
        holders (bulk_run B net urls sched) = 0 \<and> sem_value (bulk_run B net urls sched) = B)"
proof -
  let ?c = "bulk_run B net urls sched"
  have inv: "sem_value ?c + holders ?c = B" by (rule bulk_run_permits)
  then have le: "holders ?c \<le> B" by simp
  have rel: "\<forall>i c' d. task_step net ?c i = Some c' \<and> snd (tasks c' ! i) = Done d \<longrightarrow>
        holding (tasks ?c ! i) \<and> sem_value c' = sem_value ?c + 1"
    using task_step_release by blast
  have fin: "gather (tasks ?c) \<noteq> None \<longrightarrow> holders ?c = 0 \<and> sem_value ?c = B"
  proof
    assume "gather (tasks ?c) \<noteq> None"
    then obtain r where "gather (tasks ?c) = Some r" by auto
    then have "holders ?c = 0" by (rule holders_done)
    with inv show "holders ?c = 0 \<and> sem_value ?c = B" by simp
  qed
  from le inv rel fin show ?thesis by blast
qed

theorem semaphore_bounds_probes_witness:
  "holders (bulk_run 1 net_mixed [''http://a/'', ''http://b/''] [1, 0, 1]) = 1
   \<and> sem_value (bulk_run 1 net_mixed [''http://a/'', ''http://b/''] [1, 0, 1]) = 0
   \<and> task_step net_mixed (bulk_run 1 net_mixed [''http://a/'', ''http://b/''] [1, 0, 1]) 1
       = Some \<lparr>sem_value = 1,
               tasks = [(''http://a/'', Waiting),
                        (''http://b/'', Done [(''url'', PyStr ''http://b/''), (''status'', PyNone),
                                               (''error'', PyStr '''')])]\<rparr>
   \<and> gather (tasks (bulk_run 1 net_mixed [''http://a/'', ''http://b/''] [1, 0, 1, 1, 0, 0, 0])) \<noteq> None
   \<and> holders (bulk_run 1 net_mixed [''http://a/'', ''http://b/''] [1, 0, 1, 1, 0, 0, 0]) = 0
   \<and> sem_value (bulk_run 1 net_mixed [''http://a/'', ''http://b/''] [1, 0, 1, 1, 0, 0, 0]) = 1"
proof -
  have st: "task_step net_mixed (bulk_run 1 net_mixed [''http://a/'', ''http://b/''] [1, 0, 1]) 1
       = Some \<lparr>sem_value = 1,
               tasks = [(''http://a/'', Waiting),
                        (''http://b/'', Done [(''url'', PyStr ''http://b/''), (''status'', PyNone),
                                               (''error'', PyStr '''')])]\<rparr>"
    using run_mixed_prefix by (simp add: task_step_def net_mixed_def session_timeouts_def)
  have g: "gather (tasks (bulk_run 1 net_mixed [''http://a/'', ''http://b/''] [1, 0, 1, 1, 0, 0, 0])) \<noteq> None"
    using run_mixed by simp
  have h: "holders (bulk_run 1 net_mixed [''http://a/'', ''http://b/''] [1, 0, 1]) = 1"
    using run_mixed_prefix by (simp add: holders_def)
  from semaphore_bounds_probes [of 1 net_mixed "[''http://a/'', ''http://b/'']" "[1, 0, 1]"] h st
  have s: "sem_value (bulk_run 1 net_mixed [''http://a/'', ''http://b/''] [1, 0, 1]) = 0"
    by simp
  from semaphore_bounds_probes [of 1 net_mixed "[''http://a/'', ''http://b/'']" "[1, 0, 1, 1, 0, 0, 0]"] g
  have f: "holders (bulk_run 1 net_mixed [''http://a/'', ''http://b/''] [1, 0, 1, 1, 0, 0, 0]) = 0
     \<and> sem_value (bulk_run 1 net_mixed [''http://a/'', ''http://b/''] [1, 0, 1, 1, 0, 0, 0]) = 1"
    by simp
  from h s st g f show ?thesis by blast
qed

text \<open>
  Claim C10. \<^verbatim>\<open>bulk_check_urls\<close> returns its outcomes in the order of the input: the
  outcome at index \<open>i\<close> has the input URL at index \<open>i\<close> as its URL.
\<close>

theorem bulk_check_urls_keeps_order:
  assumes "bulk_check_urls net urls sched = Some r"
  shows "length r = length urls \<and> (\<forall>i < length urls. url_of (r ! i) = Some (urls ! i))"
proof -
  from assms have "r = gathered net urls"
    unfolding bulk_check_urls_def by (rule bulk_run_gathered)
  then show ?thesis
    by (simp add: gathered_def probes_from_length probes_from_nth url_of_check_url)
qed

theorem bulk_check_urls_keeps_order_witness:
  "bulk_check_urls net_mixed [''http://a/'', ''http://b/''] [1, 0, 1, 1, 0, 0] =
     Some [found ''http://a/'' (Response 200 ''http://a/index.html''),
           [(''url'', PyStr ''http://b/''), (''status'', PyNone), (''error'', PyStr '''')]]
   \<and> (1::nat) < length [''http://a/'', ''http://b/'']
   \<and> url_of ([found ''http://a/'' (Response 200 ''http://a/index.html''),
           [(''url'', PyStr ''http://b/''), (''status'', PyNone), (''error'', PyStr '''')]] ! 1)
       = Some ([''http://a/'', ''http://b/''] ! 1)"
proof -
  have l: "(1::nat) < length [''http://a/'', ''http://b/'']" by simp
  from bulk_check_urls_keeps_order [OF check_mixed] l check_mixed show ?thesis by blast
qed

section \<open>Properties of the archive query\<close>

subsection \<open>Deduplication keeps first occurrences\<close>










subsection \<open>The capped loop of main\<close>








text \<open>
  Claim C7. When the archive answers the query for \<^verbatim>\<open>example.com\<close> with the records
  \<^verbatim>\<open>[["original"], ["http://example.com/x"], ["http://example.com/x"]]\<close>, the Archive URL
  Source yields exactly \<^verbatim>\<open>["http://example.com/x"]\<close>, from the query and after the loop of
  \<^verbatim>\<open>main\<close>: the header row is skipped and the duplicate is dropped.
\<close>

theorem archive_example_scenario:
  "rget_example (CDX_API ''example.com'') limit
     = Inr (HttpResponse 200 (Inr (PyList
         [PyList [PyStr ''original''], PyList [PyStr ''http://example.com/x''],
          PyList [PyStr ''http://example.com/x'']])))
   \<and> get_wayback_urls_via_cdx rget_example ''example.com'' limit
       = [PyStr ''http://example.com/x'']
   \<and> archive_urls rget_example ''example.com'' 500 = Inr [PyStr ''http://example.com/x'']"
  by (simp add: archive_urls_def get_wayback_urls_via_cdx_def cdx_try_def rget_example_def
      example_rows_def)

text \<open>
  Claim C8. Every failure of the remote query gives the empty list: the request raising,
  a status other than 200, a body that is not JSON, a parsed value that cannot be
  iterated, a record that is an empty list, a record whose value is not hashable, and in
  general any exception raised in the body of the \<^verbatim>\<open>try\<close>. The function returns a list
  in every case, and the list is also empty when the archive answers with no records, so
  the caller sees the same value for "no URLs found" and "source failed".
\<close>

theorem cdx_failure_yields_empty:
  "(\<forall>e. rget (CDX_API domain) limit = Inl e
        \<longrightarrow> get_wayback_urls_via_cdx rget domain limit = [])
   \<and> (\<forall>r. rget (CDX_API domain) limit = Inr r \<and> status_code r \<noteq> 200
        \<longrightarrow> get_wayback_urls_via_cdx rget domain limit = [])
   \<and> (\<forall>r e. rget (CDX_API domain) limit = Inr r \<and> body_json r = Inl e
        \<longrightarrow> get_wayback_urls_via_cdx rget domain limit = [])
   \<and> (\<forall>r data e. rget (CDX_API domain) limit = Inr r \<and> body_json r = Inr data
          \<and> py_iter data = Inl e
        \<longrightarrow> get_wayback_urls_via_cdx rget domain limit = [])
   \<and> (\<forall>r data rows e. rget (CDX_API domain) limit = Inr r \<and> body_json r = Inr data
          \<and> py_iter data = Inr rows \<and> collect_rows 0 rows [] = Inl e
        \<longrightarrow> get_wayback_urls_via_cdx rget domain limit = [])
   \<and> (\<forall>r data rows urls e. rget (CDX_API domain) limit = Inr r \<and> body_json r = Inr data
          \<and> py_iter data = Inr rows \<and> collect_rows 0 rows [] = Inr urls
          \<and> dedupe urls {} [] = Inl e
        \<longrightarrow> get_wayback_urls_via_cdx rget domain limit = [])
   \<and> (\<forall>e. cdx_try rget domain limit = Inl e
        \<longrightarrow> get_wayback_urls_via_cdx rget domain limit = [])
   \<and> (\<forall>r. rget (CDX_API domain) limit = Inr r \<and> status_code r = 200
          \<and> body_json r = Inr (PyList [])
        \<longrightarrow> get_wayback_urls_via_cdx rget domain limit = [])"
  by (auto simp: get_wayback_urls_via_cdx_def cdx_try_def)

theorem cdx_failure_yields_empty_witness:
  "rget_unreachable (CDX_API ''example.com'') 500 = Inl (OtherException ''Connection refused'')
   \<and> get_wayback_urls_via_cdx rget_unreachable ''example.com'' 500 = []
   \<and> status_code (HttpResponse 503 (Inr example_rows)) \<noteq> 200
   \<and> get_wayback_urls_via_cdx rget_503 ''example.com'' 500 = []
   \<and> get_wayback_urls_via_cdx rget_not_json ''example.com'' 500 = []
   \<and> py_iter (PyInt 7) = Inl (TypeError ''object is not iterable'')
   \<and> get_wayback_urls_via_cdx rget_number ''example.com'' 500 = []
   \<and> collect_rows 0 [PyList []] [] = Inl (IndexError ''list index out of range'')
   \<and> get_wayback_urls_via_cdx rget_empty_row ''example.com'' 500 = []
   \<and> dedupe [PyList [PyStr ''http://example.com/x'']] {} [] = Inl (TypeError ''unhashable type'')
   \<and> get_wayback_urls_via_cdx rget_nested ''example.com'' 500 = []
   \<and> cdx_try rget_nested ''example.com'' 500 = Inl (TypeError ''unhashable type'')
   \<and> get_wayback_urls_via_cdx rget_no_urls ''example.com'' 500 = []"
proof -
  have a1: "rget_unreachable (CDX_API ''example.com'') 500 = Inl (OtherException ''Connection refused'')"
    by (simp add: rget_unreachable_def)
  have a2: "rget_503 (CDX_API ''example.com'') 500 = Inr (HttpResponse 503 (Inr example_rows))"
    "status_code (HttpResponse 503 (Inr example_rows)) \<noteq> 200"
    by (simp_all add: rget_503_def)
  have a3: "rget_not_json (CDX_API ''example.com'') 500
       = Inr (HttpResponse 200 (Inl (OtherException ''Expecting value: line 1 column 1 (char 0)'')))"
    "body_json (HttpResponse 200 (Inl (OtherException ''Expecting value: line 1 column 1 (char 0)'')))
       = Inl (OtherException ''Expecting value: line 1 column 1 (char 0)'')"
    by (simp_all add: rget_not_json_def)
  have a4: "rget_number (CDX_API ''example.com'') 500 = Inr (HttpResponse 200 (Inr (PyInt 7)))"
    "body_json (HttpResponse 200 (Inr (PyInt 7))) = Inr (PyInt 7)"
    "py_iter (PyInt 7) = Inl (TypeError ''object is not iterable'')"
    by (simp_all add: rget_number_def)
  have a5: "rget_empty_row (CDX_API ''example.com'') 500
       = Inr (HttpResponse 200 (Inr (PyList [PyList []])))"
    "body_json (HttpResponse 200 (Inr (PyList [PyList []]))) = Inr (PyList [PyList []])"
    "py_iter (PyList [PyList []]) = Inr [PyList []]"
    "collect_rows 0 [PyList []] [] = Inl (IndexError ''list index out of range'')"
    by (simp_all add: rget_empty_row_def)
  have a6: "rget_nested (CDX_API ''example.com'') 500
       = Inr (HttpResponse 200 (Inr (PyList [PyList [PyList [PyStr ''http://example.com/x'']]])))"
    "body_json (HttpResponse 200 (Inr (PyList [PyList [PyList [PyStr ''http://example.com/x'']]])))
       = Inr (PyList [PyList [PyList [PyStr ''http://example.com/x'']]])"
    "py_iter (PyList [PyList [PyList [PyStr ''http://example.com/x'']]])
       = Inr [PyList [PyList [PyStr ''http://example.com/x'']]]"
    "collect_rows 0 [PyList [PyList [PyStr ''http://example.com/x'']]] []
       = Inr [PyList [PyStr ''http://example.com/x'']]"
    "dedupe [PyList [PyStr ''http://example.com/x'']] {} [] = Inl (TypeError ''unhashable type'')"
    by (simp_all add: rget_nested_def)
  have a7: "cdx_try rget_nested ''example.com'' 500 = Inl (TypeError ''unhashable type'')"
    by (simp add: cdx_try_def rget_nested_def)
  have a8: "rget_no_urls (CDX_API ''example.com'') 500 = Inr (HttpResponse 200 (Inr (PyList [])))"
    "status_code (HttpResponse 200 (Inr (PyList []))) = 200"
    "body_json (HttpResponse 200 (Inr (PyList []))) = Inr (PyList [])"
    by (simp_all add: rget_no_urls_def)
  from cdx_failure_yields_empty [of rget_unreachable "''example.com''" 500] a1
  have b1: "get_wayback_urls_via_cdx rget_unreachable ''example.com'' 500 = []" by blast
  from cdx_failure_yields_empty [of rget_503 "''example.com''" 500] a2
  have b2: "get_wayback_urls_via_cdx rget_503 ''example.com'' 500 = []" by blast
  from cdx_failure_yields_empty [of rget_not_json "''example.com''" 500] a3
  have b3: "get_wayback_urls_via_cdx rget_not_json ''example.com'' 500 = []" by blast
  from cdx_failure_yields_empty [of rget_number "''example.com''" 500] a4
  have b4: "get_wayback_urls_via_cdx rget_number ''example.com'' 500 = []" by blast
  from cdx_failure_yields_empty [of rget_empty_row "''example.com''" 500] a5
  have b5: "get_wayback_urls_via_cdx rget_empty_row ''example.com'' 500 = []" by blast
  from cdx_failure_yields_empty [of rget_nested "''example.com''" 500] a6
  have b6: "get_wayback_urls_via_cdx rget_nested ''example.com'' 500 = []" by blast
  from cdx_failure_yields_empty [of rget_no_urls "''example.com''" 500] a8
  have b8: "get_wayback_urls_via_cdx rget_no_urls ''example.com'' 500 = []" by blast
  from a1 a2(2) a4(3) a5(4) a6(5) a7 b1 b2 b3 b4 b5 b6 b8 show ?thesis by blast
qed

section \<open>Properties of main\<close>


















end
